theory Spec2Isabelle
  imports Main "HOL-Library.Word" "HOL-Library.Monad_Syntax"
begin

unbundle bit_operations_syntax

section \<open>Machine integers of \<open>hex.hpp\<close>\<close>

type_synonym u8 = "8 word"
type_synonym u16 = "16 word"
type_synonym u32 = "32 word"
type_synonym u64 = "64 word"

text \<open>
  The shift operators of C++ on a \<open>u64\<close> left operand. The right operand is an \<open>int\<close>
  (a \<open>u8\<close> is promoted to \<open>int\<close> before any arithmetic on it). A shift by a negative
  amount or by 64 or more is undefined behaviour: it is the value \<open>None\<close> here, so that
  a theorem \<open>f x = Some y\<close> also says that no undefined shift was evaluated. A left
  shift drops the bits moved out at the top, a right shift of an unsigned operand
  fills with zeros.
\<close>

definition shl_u64 :: "u64 \<Rightarrow> int \<Rightarrow> u64 option" where
  "shl_u64 x n = (if 0 \<le> n \<and> n < 64 then Some (push_bit (nat n) x) else None)"

definition shr_u64 :: "u64 \<Rightarrow> int \<Rightarrow> u64 option" where
  "shr_u64 x n = (if 0 \<le> n \<and> n < 64 then Some (drop_bit (nat n) x) else None)"

section \<open>Bit extraction and sign extension\<close>

text \<open>
  The function \<open>extract(u8 from, u8 to, const u64 &value)\<close> (\<open>extract\<close> alone is a
  command of Isabelle, hence the longer name):
  \<open>mask = (numeric_limits<u64>::max() >> (63 - (from - to))) << to\<close>, result
  \<open>(value & mask) >> to\<close>. The subtractions are on \<open>int\<close>.
\<close>

definition extract_bits :: "u8 \<Rightarrow> u8 \<Rightarrow> u64 \<Rightarrow> u64 option" where
  "extract_bits from to value = do {
     ones \<leftarrow> shr_u64 (- 1) (63 - (uint from - uint to));
     mask \<leftarrow> shl_u64 ones (uint to);
     shr_u64 (value AND mask) (uint to)
   }"

text \<open>
  \<open>signExtend(u64 value, u8 currWidth, u8 targetWidth)\<close>:
  \<open>mask = 1LLU << (currWidth - 1)\<close>, result
  \<open>(((value ^ mask) - mask) << (64 - targetWidth)) >> (64 - targetWidth)\<close>.
  Every operand is a \<open>u64\<close>: the subtraction wraps and the right shift is the
  unsigned one.
\<close>

definition signExtend :: "u64 \<Rightarrow> u8 \<Rightarrow> u8 \<Rightarrow> u64 option" where
  "signExtend value currWidth targetWidth = do {
     mask \<leftarrow> shl_u64 1 (uint currWidth - 1);
     shifted \<leftarrow> shl_u64 ((value XOR mask) - mask) (64 - uint targetWidth);
     shr_u64 shifted (64 - uint targetWidth)
   }"

section \<open>Type tags\<close>

text \<open>
  The enumeration \<open>lang::Token::TypeToken::Type\<close> is declared in \<open>lang/token.hpp\<close>;
  the four functions below only read it through \<open>static_cast<u32>(type)\<close>, so the
  tag is taken here as that \<open>u32\<close>.
\<close>

definition isUnsigned :: "u32 \<Rightarrow> bool" where
  "isUnsigned type = (type AND 0x0F = 0x00)"

definition isSigned :: "u32 \<Rightarrow> bool" where
  "isSigned type = (type AND 0x0F = 0x01)"

definition isFloatingPoint :: "u32 \<Rightarrow> bool" where
  "isFloatingPoint type = (type AND 0x0F = 0x02)"

definition getTypeSize :: "u32 \<Rightarrow> u32" where
  "getTypeSize type = drop_bit 4 type"

section \<open>Byte order\<close>

text \<open>
  \<open>std::endian\<close> has the enumerators \<open>little\<close> and \<open>big\<close>; \<open>std::endian::native\<close> is
  the one of the platform the code is compiled for. It is a parameter \<open>native\<close> of
  the functions below.
\<close>

datatype endian = little | big

text \<open>
  The compiler's byte reversals \<open>__builtin_bswap16\<close>, \<open>__builtin_bswap32\<close> and
  \<open>__builtin_bswap64\<close>: the result holds the bytes of the argument in the opposite
  order. Each byte is moved to its new place by a shift and the places are joined.
\<close>

definition bswap16 :: "u16 \<Rightarrow> u16" where
  "bswap16 x = push_bit 8 (x AND 0xFF) OR (drop_bit 8 x AND 0xFF)"

definition bswap32 :: "u32 \<Rightarrow> u32" where
  "bswap32 x =
     push_bit 24 (x AND 0xFF) OR push_bit 16 (drop_bit 8 x AND 0xFF) OR
     push_bit 8 (drop_bit 16 x AND 0xFF) OR (drop_bit 24 x AND 0xFF)"

definition bswap64 :: "u64 \<Rightarrow> u64" where
  "bswap64 x =
     push_bit 56 (x AND 0xFF) OR push_bit 48 (drop_bit 8 x AND 0xFF) OR
     push_bit 40 (drop_bit 16 x AND 0xFF) OR push_bit 32 (drop_bit 24 x AND 0xFF) OR
     push_bit 24 (drop_bit 32 x AND 0xFF) OR push_bit 16 (drop_bit 40 x AND 0xFF) OR
     push_bit 8 (drop_bit 48 x AND 0xFF) OR (drop_bit 56 x AND 0xFF)"

text \<open>
  The template \<open>changeEndianess(T value, std::endian endian)\<close>, instantiated at the
  integer types of 1, 2, 4 and 8 bytes (a signed type has the bit patterns of the
  unsigned type of its size). \<open>if constexpr (sizeof(T) == ...)\<close> keeps one branch in
  each instance; a type of any other size is rejected by the \<open>static_assert\<close> when
  the program is compiled.
\<close>

definition changeEndianess_u8 :: "endian \<Rightarrow> u8 \<Rightarrow> endian \<Rightarrow> u8" where
  "changeEndianess_u8 native value endian =
     (if endian = native then value else value)"

definition changeEndianess_u16 :: "endian \<Rightarrow> u16 \<Rightarrow> endian \<Rightarrow> u16" where
  "changeEndianess_u16 native value endian =
     (if endian = native then value else bswap16 value)"

definition changeEndianess_u32 :: "endian \<Rightarrow> u32 \<Rightarrow> endian \<Rightarrow> u32" where
  "changeEndianess_u32 native value endian =
     (if endian = native then value else bswap32 value)"

definition changeEndianess_u64 :: "endian \<Rightarrow> u64 \<Rightarrow> endian \<Rightarrow> u64" where
  "changeEndianess_u64 native value endian =
     (if endian = native then value else bswap64 value)"

text \<open>
  The template \<open>changeEndianess(T value, size_t size, std::endian endian)\<close> for an
  unsigned integer type \<open>T\<close> of any width. The argument of a byte reversal is
  converted to the builtin's parameter type and its result back to \<open>T\<close>: both
  conversions keep the low bits and fill with zeros (\<open>ucast\<close>); so they do as well
  for a signed \<open>T\<close> that is at least as wide as the builtin's parameter. The byte
  count \<open>size\<close> is only compared with constants and is a natural number here. The
  last branch throws \<open>std::invalid_argument("Invalid value size!")\<close>.
\<close>

datatype exception = invalid_argument string

abbreviation InvalidSize :: exception where
  "InvalidSize \<equiv> invalid_argument ''Invalid value size!''"

definition changeEndianess_sized ::
  "endian \<Rightarrow> 'a::len word \<Rightarrow> nat \<Rightarrow> endian \<Rightarrow> exception + 'a word" where
  "changeEndianess_sized native value sz endian =
     (if endian = native then Inr value
      else if sz = 1 then Inr value
      else if sz = 2 then Inr (ucast (bswap16 (ucast value)))
      else if sz = 4 then Inr (ucast (bswap32 (ucast value)))
      else if sz = 8 then Inr (ucast (bswap64 (ucast value)))
      else Inl InvalidSize)"

section \<open>What the specification says of sign extension\<close>

text \<open>
  The next three definitions follow the words of the specification, not the code.
  \<open>signed_of_low_bits w x\<close> is the signed integer denoted by the low \<open>w\<close> bits of \<open>x\<close>
  read as two's complement: the low bits as a number, less \<open>2 ^ w\<close> when their
  top bit is set.
\<close>

definition signed_of_low_bits :: "nat \<Rightarrow> u64 \<Rightarrow> int" where
  "signed_of_low_bits w x =
     (let lo = uint x mod 2 ^ w in if 2 ^ (w - 1) \<le> lo then lo - 2 ^ w else lo)"

text \<open>
  \<open>twos_complement w k\<close> is the \<open>w\<close>-bit two's-complement representation of the
  integer \<open>k\<close>, held in the low \<open>w\<close> bits of a \<open>u64\<close> as an unsigned bit pattern.
\<close>

definition twos_complement :: "nat \<Rightarrow> int \<Rightarrow> u64" where
  "twos_complement w k = word_of_int (k mod 2 ^ w)"

text \<open>
  The computation as the specification words it, where the last shift is an
  arithmetic one and fills with copies of the top bit.
\<close>

definition signExtend_arithmetic :: "u64 \<Rightarrow> nat \<Rightarrow> nat \<Rightarrow> u64" where
  "signExtend_arithmetic value cw tw =
     (let mask = push_bit (cw - 1) 1
      in signed_drop_bit (64 - tw) (push_bit (64 - tw) ((value XOR mask) - mask)))"

section \<open>Type tags: classes and size\<close>

lemma low_nibble: "(t :: u32) AND 0x0F = take_bit 4 t"
  by (simp add: take_bit_eq_mask mask_eq_exp_minus_1)

lemma low_nibble_eq: "k < 16 \<Longrightarrow> ((t :: u32) AND 0x0F = of_nat k) = (unat t mod 16 = k)"
proof -
  assume k: "k < 16"
  have "unat (take_bit 4 t) = unat t mod 16"
    by (simp add: unsigned_take_bit_eq take_bit_eq_mod unat_mod)
  moreover have "unat (of_nat k :: u32) = k"
    using k by (simp add: unsigned_of_nat take_bit_nat_eq_self)
  ultimately show ?thesis
    unfolding low_nibble by (metis word_unat_eq_iff)
qed

text \<open>
  C5. For every type tag at most one of \<open>isUnsigned\<close>, \<open>isSigned\<close> and
  \<open>isFloatingPoint\<close> holds: the first exactly when the low nibble of the tag is 0,
  the second when it is 1, the third when it is 2, and none for any other nibble.
\<close>

theorem type_class_at_most_one:
  "length (filter id [isUnsigned t, isSigned t, isFloatingPoint t]) \<le> 1 \<and>
   isUnsigned t = (unat t mod 16 = 0) \<and>
   isSigned t = (unat t mod 16 = 1) \<and>
   isFloatingPoint t = (unat t mod 16 = 2)"
  using low_nibble_eq [of 0 t] low_nibble_eq [of 1 t] low_nibble_eq [of 2 t]
  by (simp add: isUnsigned_def isSigned_def isFloatingPoint_def)

text \<open>
  C6. For every type tag, \<open>getTypeSize\<close> is the tag shifted right by four bits, that
  is the tag divided by 16 and rounded down; it is a total function and the tag 0 has
  size 0.
\<close>

theorem getTypeSize_shift:
  "getTypeSize t = drop_bit 4 t \<and> unat (getTypeSize t) = unat t div 16 \<and> getTypeSize 0 = 0"
  by (simp add: getTypeSize_def unat_drop_bit_eq drop_bit_eq_div unat_div)

section \<open>Bit extraction\<close>

lemma shl_u64_nat: "n < 64 \<Longrightarrow> shl_u64 x (int n) = Some (push_bit n x)"
  by (simp add: shl_u64_def)

lemma shr_u64_nat: "n < 64 \<Longrightarrow> shr_u64 x (int n) = Some (drop_bit n x)"
  by (simp add: shr_u64_def)

lemma extract_mask:
  fixes v :: u64
  assumes "t \<le> f" "f \<le> 63"
  shows "drop_bit t (v AND push_bit t (drop_bit (63 - (f - t)) (- 1))) =
    take_bit (Suc (f - t)) (drop_bit t v)"
  using assms by (intro bit_word_eqI) (auto simp: bit_simps)

text \<open>
  C2. For every 64-bit value and every range with \<open>to \<le> from \<le> 63\<close> (and \<open>0 \<le> to\<close>,
  as \<open>to\<close> is unsigned), \<open>extract\<close> evaluates no undefined shift and equals
  \<open>(value & mask) >> to\<close> with \<open>mask = (ALL_ONES >> (63 - (from - to))) << to\<close>; that
  is, the \<open>from - to + 1\<close> bits of the value at the positions \<open>to\<close> to \<open>from\<close>, moved down
  to bit 0, with zeros above.
\<close>

theorem extract_bits_range:
  assumes "to \<le> from" "from \<le> 63"
  shows "extract_bits from to value =
      Some (drop_bit (unat to)
        (value AND push_bit (unat to) (drop_bit (63 - (unat from - unat to)) (- 1)))) \<and>
    extract_bits from to value =
      Some (take_bit (Suc (unat from - unat to)) (drop_bit (unat to) value))"
proof -
  let ?f = "unat from" and ?t = "unat to"
  from assms have ft: "?t \<le> ?f" "?f \<le> 63"
    by (simp_all add: word_le_nat_alt)
  then have a: "63 - (uint from - uint to) = int (63 - (?f - ?t))" "63 - (?f - ?t) < 64"
    and b: "uint to = int ?t" "?t < 64"
    by simp_all
  have "extract_bits from to value =
      Some (drop_bit ?t (value AND push_bit ?t (drop_bit (63 - (?f - ?t)) (- 1))))"
    unfolding extract_bits_def a(1) unfolding b(1)
    by (simp only: shr_u64_nat [OF a(2)] shl_u64_nat [OF b(2)] shr_u64_nat [OF b(2)] bind.simps)
  then show ?thesis
    by (simp only: extract_mask [OF ft] simp_thms)
qed

theorem extract_bits_range_witness:
  "extract_bits 7 0 0x1234ABFF = Some 0xFF \<and> extract_bits 15 8 0x1234ABFF = Some 0xAB \<and>
   extract_bits 63 0 0x1234ABFF = Some 0x1234ABFF"
  using extract_bits_range [of 0 7 "0x1234ABFF", THEN conjunct2]
    extract_bits_range [of 8 15 "0x1234ABFF", THEN conjunct2]
    extract_bits_range [of 0 63 "0x1234ABFF", THEN conjunct2]
  by simp

section \<open>Sign extension\<close>

lemma u8_width:
  fixes w :: u8
  assumes "1 \<le> w" "w \<le> 64"
  shows "1 \<le> unat w \<and> unat w \<le> 64 \<and> uint w = int (unat w)"
  using assms by (simp add: word_le_nat_alt)

lemma drop_push_u64:
  "k \<le> 64 \<Longrightarrow> drop_bit (64 - k) (push_bit (64 - k) (x :: u64)) = take_bit k x"
  by (rule bit_word_eqI) (auto simp: bit_simps)

lemma xor_bit_minus:
  fixes x :: "'a::len word"
  shows "(x XOR 2 ^ n) - 2 ^ n = x - of_bool (bit x n) * 2 ^ Suc n"
proof -
  have "x XOR 2 ^ n = flip_bit n x"
    by (simp add: flip_bit_eq_xor push_bit_eq_mult)
  then show ?thesis
    by (simp add: flip_bit_eq_if set_bit_eq unset_bit_eq)
qed

lemma signExtend_take_bit:
  assumes "1 \<le> cw" "cw \<le> 64" "1 \<le> tw" "tw \<le> 64"
  shows "signExtend value cw tw =
    Some (take_bit (unat tw) ((value XOR 2 ^ (unat cw - 1)) - 2 ^ (unat cw - 1)))"
proof -
  from u8_width [OF assms(1,2)]
  have c: "1 \<le> unat cw" "unat cw \<le> 64" "uint cw = int (unat cw)" by blast+
  from u8_width [OF assms(3,4)]
  have t: "1 \<le> unat tw" "unat tw \<le> 64" "uint tw = int (unat tw)" by blast+
  from c have n1: "uint cw - 1 = int (unat cw - 1)" "unat cw - 1 < 64" by linarith+
  from t have n2: "64 - uint tw = int (64 - unat tw)" "64 - unat tw < 64" by linarith+
  have m: "shl_u64 1 (uint cw - 1) = Some (2 ^ (unat cw - 1))"
    unfolding n1(1) using n1(2) by (simp only: shl_u64_nat push_bit_of_1)
  have s: "shl_u64 y (64 - uint tw) = Some (push_bit (64 - unat tw) y)" for y
    unfolding n2(1) using n2(2) by (rule shl_u64_nat)
  have r: "shr_u64 y (64 - uint tw) = Some (drop_bit (64 - unat tw) y)" for y
    unfolding n2(1) using n2(2) by (rule shr_u64_nat)
  show ?thesis
    unfolding signExtend_def m s r using t(2) by (simp only: bind.simps drop_push_u64)
qed

lemma signed_of_low_bits_eq:
  assumes "0 < w"
  shows "signed_of_low_bits w x = take_bit w (uint x) - of_bool (bit x (w - 1)) * 2 ^ w"
proof -
  obtain n where w: "w = Suc n" using assms by (cases w) auto
  let ?k = "uint x"
  have b: "bit x (w - 1) = bit ?k n"
    by (auto simp: w bit_uint_iff dest: bit_imp_le_length)
  have lo: "0 \<le> take_bit n ?k" "take_bit n ?k < 2 ^ n" by simp_all
  have d: "signed_of_low_bits w x =
      (if 2 ^ n \<le> take_bit w ?k then take_bit w ?k - 2 ^ w else take_bit w ?k)"
    by (simp add: signed_of_low_bits_def Let_def take_bit_eq_mod w)
  show ?thesis
  proof (cases "bit ?k n")
    case True
    then have "take_bit w ?k = 2 ^ n + take_bit n ?k"
      unfolding w by (simp add: take_bit_Suc_from_most)
    with lo have "2 ^ n \<le> take_bit w ?k" by linarith
    then show ?thesis unfolding d b using True by simp
  next
    case False
    then have "take_bit w ?k = take_bit n ?k"
      unfolding w by (simp add: take_bit_Suc_from_most)
    with lo have "\<not> 2 ^ n \<le> take_bit w ?k" by linarith
    then show ?thesis unfolding d b using False by simp
  qed
qed

lemma take_bit_word_of_int_u64:
  "n \<le> 64 \<Longrightarrow> take_bit n (word_of_int k :: u64) = word_of_int (take_bit n k)"
  by (rule bit_word_eqI) (auto simp: bit_simps)

lemma signExtend_value:
  assumes "1 \<le> cw" "cw \<le> 64" "1 \<le> tw" "tw \<le> 64"
    and zero: "drop_bit (unat cw) (take_bit (unat tw) value) = 0"
  shows "signExtend value cw tw =
    Some (twos_complement (unat tw) (signed_of_low_bits (unat cw) value))"
proof -
  from u8_width [OF assms(1,2)] have c: "0 < unat cw" by simp
  from u8_width [OF assms(3,4)] have t: "unat tw \<le> 64" by simp
  let ?c = "unat cw" and ?t = "unat tw"
  let ?B = "of_bool (bit value (?c - 1)) * 2 ^ ?c :: int"
  have sc: "Suc (?c - 1) = ?c" using c by simp
  have "(value XOR 2 ^ (?c - 1)) - 2 ^ (?c - 1) = value - of_bool (bit value (?c - 1)) * 2 ^ ?c"
    using xor_bit_minus [of "value" "?c - 1"] unfolding sc .
  also have "\<dots> = word_of_int (uint value - ?B)"
    by simp
  finally have "take_bit ?t ((value XOR 2 ^ (?c - 1)) - 2 ^ (?c - 1))
      = word_of_int (take_bit ?t (uint value - ?B))"
    using t by (simp only: take_bit_word_of_int_u64)
  moreover have "n < ?t \<Longrightarrow> bit value n \<Longrightarrow> n < ?c" for n
  proof (rule ccontr)
    assume n: "n < ?t" "bit value n" and "\<not> n < ?c"
    then have "bit (drop_bit ?c (take_bit ?t value)) (n - ?c)"
      by (simp add: bit_simps)
    then show False unfolding zero by simp
  qed
  then have "take_bit ?t (uint value) = take_bit ?t (take_bit ?c (uint value))"
    by (intro bit_eqI) (auto simp: bit_simps bit_uint_iff)
  then have "take_bit ?t (uint value - ?B) = take_bit ?t (take_bit ?c (uint value) - ?B)"
    by (metis take_bit_diff)
  ultimately show ?thesis
    using c by (simp add: signExtend_take_bit [OF assms(1-4)] twos_complement_def
        signed_of_low_bits_eq take_bit_eq_mod)
qed

lemma twos_complement_small: "drop_bit w (twos_complement w k) = 0"
  by (intro bit_word_eqI) (simp add: twos_complement_def bit_simps flip: take_bit_eq_mod)

lemma take_bit_minus_exp: "take_bit n (k - of_bool b * 2 ^ n :: int) = take_bit n k"
  by (cases b) (simp_all add: take_bit_eq_mod)

text \<open>
  C1, as the claim states it, fails. At value \<open>0x9A\<close>, current width 4 and target
  width 8 the code returns \<open>0x8A\<close>; the low four bits \<open>0xA\<close> denote \<open>-6\<close>, whose 8-bit
  representation is \<open>0xFA\<close>, and the computation with an arithmetic last shift gives
  \<open>0xFFFFFFFFFFFFFF8A\<close>. At the value \<open>0xA\<close>, which fits four bits, the code returns
  \<open>0xFA\<close> with zeros above bit 7, where the arithmetic shift would set every bit above.
\<close>

theorem signExtend_counterexample:
  "signExtend 0x9A 4 8 = Some 0x8A \<and>
   twos_complement 8 (signed_of_low_bits 4 0x9A) = 0xFA \<and>
   signExtend 0x9A 4 8 \<noteq> Some (twos_complement 8 (signed_of_low_bits 4 0x9A)) \<and>
   signExtend_arithmetic 0x9A 4 8 = 0xFFFFFFFFFFFFFF8A \<and>
   signExtend 0xA 4 8 = Some 0xFA \<and>
   signExtend_arithmetic 0xA 4 8 = 0xFFFFFFFFFFFFFFFA \<and>
   signExtend 0xA 4 8 \<noteq> Some (signExtend_arithmetic 0xA 4 8)"
  by (simp add: signExtend_def shl_u64_def shr_u64_def twos_complement_def
      signed_of_low_bits_def signExtend_arithmetic_def)

text \<open>
  C1, amended. For widths between 1 and 64 and a value whose bits from position
  \<open>currWidth\<close> up to \<open>targetWidth - 1\<close> are zero (every value when
  \<open>targetWidth \<le> currWidth\<close>, every value below \<open>2 ^ currWidth\<close> otherwise),
  \<open>signExtend\<close> evaluates no undefined shift and returns the \<open>targetWidth\<close>-bit
  two's-complement representation of the signed integer denoted by the low
  \<open>currWidth\<close> bits of the value. It is \<open>(value XOR mask) - mask\<close> shifted left by
  \<open>64 - targetWidth\<close> and then shifted right by the same amount as an unsigned
  number, so the bits of the result from \<open>targetWidth\<close> upwards are zero.
\<close>

theorem signExtend_twos_complement:
  assumes "1 \<le> currWidth" "currWidth \<le> 64" "1 \<le> targetWidth" "targetWidth \<le> 64"
    and "drop_bit (unat currWidth) (take_bit (unat targetWidth) value) = 0"
  shows "signExtend value currWidth targetWidth =
      Some (twos_complement (unat targetWidth) (signed_of_low_bits (unat currWidth) value)) \<and>
    signExtend value currWidth targetWidth =
      Some (drop_bit (64 - unat targetWidth) (push_bit (64 - unat targetWidth)
        ((value XOR push_bit (unat currWidth - 1) 1) - push_bit (unat currWidth - 1) 1))) \<and>
    drop_bit (unat targetWidth)
      (twos_complement (unat targetWidth) (signed_of_low_bits (unat currWidth) value)) = 0"
proof -
  from u8_width [OF assms(3,4)] have t: "unat targetWidth \<le> 64" by simp
  show ?thesis
    using signExtend_value [OF assms] signExtend_take_bit [OF assms(1-4), of "value"] t
    by (simp only: twos_complement_small drop_push_u64 push_bit_of_1 simp_thms)
qed

theorem signExtend_twos_complement_witness:
  "signExtend 0xA 4 8 = Some 0xFA \<and> signExtend 0xFFF 12 64 = Some 0xFFFFFFFFFFFFFFFF"
  using signExtend_twos_complement [of 4 8 "0xA"] signExtend_twos_complement [of 12 64 "0xFFF"]
  by (simp add: twos_complement_def signed_of_low_bits_def)

text \<open>
  C8. For every width \<open>w\<close> between 1 and 64 and every value below \<open>2 ^ w\<close>,
  \<open>signExtend value w w\<close> returns the value unchanged.
\<close>

theorem signExtend_same_width:
  assumes "1 \<le> w" "w \<le> 64" "uint value < 2 ^ unat w"
  shows "signExtend value w w = Some value"
proof -
  from u8_width [OF assms(1,2)] have w: "0 < unat w" by simp
  have "take_bit (unat w) (uint value) = uint value"
    using assms(3) by (simp add: take_bit_int_eq_self)
  then have "twos_complement (unat w) (signed_of_low_bits (unat w) value) = value"
    unfolding twos_complement_def signed_of_low_bits_eq [OF w]
    by (simp add: take_bit_minus_exp flip: take_bit_eq_mod)
  moreover have "drop_bit (unat w) (take_bit (unat w) value) = 0"
    by (intro bit_word_eqI) (simp add: bit_simps)
  ultimately show ?thesis
    using signExtend_value [OF assms(1,2) assms(1,2), of "value"] by simp
qed

theorem signExtend_same_width_witness:
  "signExtend 0xFF 8 8 = Some 0xFF \<and> signExtend 0x7FFFFFFFFFFFFFFF 64 64 = Some 0x7FFFFFFFFFFFFFFF"
  using signExtend_same_width [of 8 "0xFF"] signExtend_same_width [of 64 "0x7FFFFFFFFFFFFFFF"]
  by simp

section \<open>Byte reversal\<close>

text \<open>
  Bit \<open>n\<close> of a reversed word of \<open>k\<close> bytes lies in byte \<open>n div 8\<close> at offset \<open>n mod 8\<close>;
  it is the bit at the same offset of byte \<open>k - 1 - n div 8\<close> of the argument.
\<close>

lemma and_FF: "(x :: 'a::len word) AND 0xFF = take_bit 8 x"
  by (simp add: take_bit_eq_mask mask_eq_exp_minus_1)

lemma byte_number:
  obtains "q = 0" | "q = 1" | "q = 2" | "q = 3" | "q = 4" | "q = 5" | "q = 6" | "q = 7"
    | "8 \<le> (q::nat)"
  by linarith

lemma bit_bswap16_byte:
  "r < 8 \<Longrightarrow> bit (bswap16 x) (8 * q + r) \<longleftrightarrow> q < 2 \<and> bit x (8 * (1 - q) + r)"
  by (cases q rule: byte_number) (auto simp: bswap16_def and_FF bit_simps)

lemma bit_bswap32_byte:
  "r < 8 \<Longrightarrow> bit (bswap32 x) (8 * q + r) \<longleftrightarrow> q < 4 \<and> bit x (8 * (3 - q) + r)"
  by (cases q rule: byte_number) (auto simp: bswap32_def and_FF bit_simps)

lemma bit_bswap64_byte:
  "r < 8 \<Longrightarrow> bit (bswap64 x) (8 * q + r) \<longleftrightarrow> q < 8 \<and> bit x (8 * (7 - q) + r)"
  by (cases q rule: byte_number) (auto simp: bswap64_def and_FF bit_simps)

lemma bit_bswap16:
  "bit (bswap16 x) n \<longleftrightarrow> n < 16 \<and> bit x (8 * (1 - n div 8) + n mod 8)"
proof -
  have "(n div 8 < 2) = (n < 16)" by (simp add: div_less_iff_less_mult)
  then show ?thesis
    using bit_bswap16_byte [of "n mod 8" x "n div 8"] by simp
qed

lemma bit_bswap32:
  "bit (bswap32 x) n \<longleftrightarrow> n < 32 \<and> bit x (8 * (3 - n div 8) + n mod 8)"
proof -
  have "(n div 8 < 4) = (n < 32)" by (simp add: div_less_iff_less_mult)
  then show ?thesis
    using bit_bswap32_byte [of "n mod 8" x "n div 8"] by simp
qed

lemma bit_bswap64:
  "bit (bswap64 x) n \<longleftrightarrow> n < 64 \<and> bit x (8 * (7 - n div 8) + n mod 8)"
proof -
  have "(n div 8 < 8) = (n < 64)" by (simp add: div_less_iff_less_mult)
  then show ?thesis
    using bit_bswap64_byte [of "n mod 8" x "n div 8"] by simp
qed

lemma mirror_mirror:
  fixes n k :: nat
  assumes "n < 8 * k"
  shows "8 * (k - 1 - (8 * (k - 1 - n div 8) + n mod 8) div 8)
      + (8 * (k - 1 - n div 8) + n mod 8) mod 8 = n"
    and "8 * (k - 1 - n div 8) + n mod 8 < 8 * k"
proof -
  from assms have q: "n div 8 < k" by (simp add: div_less_iff_less_mult mult.commute)
  have d: "(8 * (k - 1 - n div 8) + n mod 8) div 8 = k - 1 - n div 8" by simp
  have m: "(8 * (k - 1 - n div 8) + n mod 8) mod 8 = n mod 8" by simp
  from q have "k - 1 - (k - 1 - n div 8) = n div 8" by simp
  then show "8 * (k - 1 - (8 * (k - 1 - n div 8) + n mod 8) div 8)
      + (8 * (k - 1 - n div 8) + n mod 8) mod 8 = n"
    unfolding d m by simp
  have "n mod 8 < 8" by simp
  moreover from q have "8 * (k - 1 - n div 8) + 8 \<le> 8 * k" by simp
  ultimately show "8 * (k - 1 - n div 8) + n mod 8 < 8 * k" by linarith
qed

lemma bswap16_bswap16: "bswap16 (bswap16 x) = x"
proof (rule bit_word_eqI)
  fix n assume "n < LENGTH(16)"
  then have n: "n < 8 * 2" by simp
  show "bit (bswap16 (bswap16 x)) n = bit x n"
    using mirror_mirror [OF n] n by (simp add: bit_bswap16)
qed

lemma bswap32_bswap32: "bswap32 (bswap32 x) = x"
proof (rule bit_word_eqI)
  fix n assume "n < LENGTH(32)"
  then have n: "n < 8 * 4" by simp
  show "bit (bswap32 (bswap32 x)) n = bit x n"
    using mirror_mirror [OF n] n by (simp add: bit_bswap32)
qed

lemma bswap64_bswap64: "bswap64 (bswap64 x) = x"
proof (rule bit_word_eqI)
  fix n assume "n < LENGTH(64)"
  then have n: "n < 8 * 8" by simp
  show "bit (bswap64 (bswap64 x)) n = bit x n"
    using mirror_mirror [OF n] n by (simp add: bit_bswap64)
qed

lemma ucast_ucast_wider:
  "LENGTH('b::len) \<le> LENGTH('a::len) \<Longrightarrow> ucast (ucast (w :: 'b word) :: 'a word) = w"
  by (rule bit_word_eqI) (simp add: bit_simps)

lemma ucast_ucast_narrower:
  "ucast (ucast (v :: 'a::len word) :: 'b::len word) = (take_bit LENGTH('b) v :: 'a word)"
  by (rule bit_word_eqI) (auto simp: bit_simps)

lemma sized_swap16:
  fixes v :: "'a::len word"
  assumes "16 \<le> LENGTH('a)"
  shows "bit (ucast (bswap16 (ucast v)) :: 'a word) n =
      (n < 8 * 2 \<and> bit v (8 * (2 - 1 - n div 8) + n mod 8))"
    and "(ucast (bswap16 (ucast (ucast (bswap16 (ucast v)) :: 'a word))) :: 'a word) =
      take_bit (8 * 2) v"
proof -
  show "bit (ucast (bswap16 (ucast v)) :: 'a word) n =
      (n < 8 * 2 \<and> bit v (8 * (2 - 1 - n div 8) + n mod 8))"
    using assms mirror_mirror(2) [of n 2] by (auto simp: bit_simps bit_bswap16)
  show "(ucast (bswap16 (ucast (ucast (bswap16 (ucast v)) :: 'a word))) :: 'a word) =
      take_bit (8 * 2) v"
  proof -
    from assms have "LENGTH(16) \<le> LENGTH('a)" by simp
    then have "ucast (ucast (bswap16 (ucast v)) :: 'a word) = bswap16 (ucast v)"
      by (rule ucast_ucast_wider)
    then show ?thesis
      by (simp only: bswap16_bswap16 ucast_ucast_narrower) simp
  qed
qed

lemma sized_swap32:
  fixes v :: "'a::len word"
  assumes "32 \<le> LENGTH('a)"
  shows "bit (ucast (bswap32 (ucast v)) :: 'a word) n =
      (n < 8 * 4 \<and> bit v (8 * (4 - 1 - n div 8) + n mod 8))"
    and "(ucast (bswap32 (ucast (ucast (bswap32 (ucast v)) :: 'a word))) :: 'a word) =
      take_bit (8 * 4) v"
proof -
  show "bit (ucast (bswap32 (ucast v)) :: 'a word) n =
      (n < 8 * 4 \<and> bit v (8 * (4 - 1 - n div 8) + n mod 8))"
    using assms mirror_mirror(2) [of n 4] by (auto simp: bit_simps bit_bswap32)
  show "(ucast (bswap32 (ucast (ucast (bswap32 (ucast v)) :: 'a word))) :: 'a word) =
      take_bit (8 * 4) v"
  proof -
    from assms have "LENGTH(32) \<le> LENGTH('a)" by simp
    then have "ucast (ucast (bswap32 (ucast v)) :: 'a word) = bswap32 (ucast v)"
      by (rule ucast_ucast_wider)
    then show ?thesis
      by (simp only: bswap32_bswap32 ucast_ucast_narrower) simp
  qed
qed

lemma sized_swap64:
  fixes v :: "'a::len word"
  assumes "64 \<le> LENGTH('a)"
  shows "bit (ucast (bswap64 (ucast v)) :: 'a word) n =
      (n < 8 * 8 \<and> bit v (8 * (8 - 1 - n div 8) + n mod 8))"
    and "(ucast (bswap64 (ucast (ucast (bswap64 (ucast v)) :: 'a word))) :: 'a word) =
      take_bit (8 * 8) v"
proof -
  show "bit (ucast (bswap64 (ucast v)) :: 'a word) n =
      (n < 8 * 8 \<and> bit v (8 * (8 - 1 - n div 8) + n mod 8))"
    using assms mirror_mirror(2) [of n 8] by (auto simp: bit_simps bit_bswap64)
  show "(ucast (bswap64 (ucast (ucast (bswap64 (ucast v)) :: 'a word))) :: 'a word) =
      take_bit (8 * 8) v"
  proof -
    from assms have "LENGTH(64) \<le> LENGTH('a)" by simp
    then have "ucast (ucast (bswap64 (ucast v)) :: 'a word) = bswap64 (ucast v)"
      by (rule ucast_ucast_wider)
    then show ?thesis
      by (simp only: bswap64_bswap64 ucast_ucast_narrower) simp
  qed
qed

section \<open>Byte order conversion\<close>

text \<open>
  C7. When the requested byte order is the native one, \<open>changeEndianess\<close> returns
  the value unchanged at every width, in the statically typed variant and in the
  variant with a byte count; the statically typed variant at a type of one byte
  returns the value unchanged for every requested order.
\<close>

theorem native_order_unchanged:
  "changeEndianess_u8 native v8 native = v8 \<and>
   changeEndianess_u16 native v16 native = v16 \<and>
   changeEndianess_u32 native v32 native = v32 \<and>
   changeEndianess_u64 native v64 native = v64 \<and>
   changeEndianess_sized native v sz native = Inr v \<and>
   changeEndianess_u8 native v8 endian = v8"
  by (simp add: changeEndianess_u8_def changeEndianess_u16_def changeEndianess_u32_def
      changeEndianess_u64_def changeEndianess_sized_def)

text \<open>
  C9. The variant with a byte count compares the byte order before it looks at
  the count: with the native order it returns the value for every count, also
  for a count outside 1, 2, 4, 8. It throws exactly when the requested order is
  not the native one and the count is none of 1, 2, 4, 8.
\<close>

theorem sized_native_never_fails:
  "changeEndianess_sized native v sz native = Inr v \<and>
   (changeEndianess_sized native v sz endian = Inl InvalidSize) =
     (endian \<noteq> native \<and> sz \<notin> {1, 2, 4, 8})"
  by (simp add: changeEndianess_sized_def)

theorem sized_native_never_fails_witness:
  "changeEndianess_sized little (0x1234 :: u64) 3 little = Inr 0x1234 \<and>
   changeEndianess_sized little (0x1234 :: u64) 3 big = Inl InvalidSize"
  using sized_native_never_fails [of little "0x1234 :: u64" 3 big] by simp




text \<open>
  C4. The statically typed \<open>changeEndianess\<close> undoes itself: at the widths of 2, 4
  and 8 bytes, for every value and every requested byte order other than the
  native one, converting twice with that order gives the value back.
\<close>

theorem changeEndianess_involution:
  assumes "endian \<noteq> native"
  shows "changeEndianess_u16 native (changeEndianess_u16 native v16 endian) endian = v16 \<and>
    changeEndianess_u32 native (changeEndianess_u32 native v32 endian) endian = v32 \<and>
    changeEndianess_u64 native (changeEndianess_u64 native v64 endian) endian = v64"
  using assms
  by (simp add: changeEndianess_u16_def changeEndianess_u32_def changeEndianess_u64_def
      bswap16_bswap16 bswap32_bswap32 bswap64_bswap64)

theorem changeEndianess_involution_witness:
  "changeEndianess_u16 little (changeEndianess_u16 little 0xAABB big) big = 0xAABB \<and>
   changeEndianess_u32 little (changeEndianess_u32 little 0xAABBCCDD big) big = 0xAABBCCDD \<and>
   changeEndianess_u64 little (changeEndianess_u64 little 0x1122334455667788 big) big
     = 0x1122334455667788 \<and>
   changeEndianess_u16 little 0xAABB big = 0xBBAA \<and>
   changeEndianess_u32 little 0xAABBCCDD big = 0xDDCCBBAA \<and>
   changeEndianess_u64 little 0x1122334455667788 big = 0x8877665544332211"
  using changeEndianess_involution [of big little "0xAABB" "0xAABBCCDD" "0x1122334455667788"]
  by (simp add: changeEndianess_u16_def changeEndianess_u32_def changeEndianess_u64_def
      bswap16_def bswap32_def bswap64_def)

lemma sized_swap_reverses:
  fixes "value" :: "'a::len word"
  assumes "endian \<noteq> native" and "sz = 2 \<or> sz = 4 \<or> sz = 8" and "8 * sz < LENGTH('a)"
  shows "\<exists>r. changeEndianess_sized native value sz endian = Inr r \<and>
    (\<forall>n. bit r n = (n < 8 * sz \<and> bit value (8 * (sz - 1 - n div 8) + n mod 8))) \<and>
    changeEndianess_sized native r sz endian = Inr (take_bit (8 * sz) value) \<and>
    (changeEndianess_sized native r sz endian = Inr value) = (drop_bit (8 * sz) value = 0)"
proof -
  have restore: "(take_bit (8 * sz) value = value) = (drop_bit (8 * sz) value = 0)"
    by (rule take_bit_eq_self_iff_drop_bit_eq_0)
  from assms(2) consider "sz = 2" | "sz = 4" | "sz = 8" by blast
  then show ?thesis
  proof cases
    case 1
    with assms(3) have len: "16 \<le> LENGTH('a)" by simp
    have r: "changeEndianess_sized native w 2 endian = Inr (ucast (bswap16 (ucast w)))"
      for w :: "'a word"
      using assms(1) by (simp add: changeEndianess_sized_def)
    show ?thesis
      unfolding 1 r
      by (rule exI [of _ "ucast (bswap16 (ucast value))"])
        (simp only: sized_swap16 [OF len] restore [unfolded 1] sum.inject simp_thms)
  next
    case 2
    with assms(3) have len: "32 \<le> LENGTH('a)" by simp
    have r: "changeEndianess_sized native w 4 endian = Inr (ucast (bswap32 (ucast w)))"
      for w :: "'a word"
      using assms(1) by (simp add: changeEndianess_sized_def)
    show ?thesis
      unfolding 2 r
      by (rule exI [of _ "ucast (bswap32 (ucast value))"])
        (simp only: sized_swap32 [OF len] restore [unfolded 2] sum.inject simp_thms)
  next
    case 3
    with assms(3) have len: "64 \<le> LENGTH('a)" by simp
    have r: "changeEndianess_sized native w 8 endian = Inr (ucast (bswap64 (ucast w)))"
      for w :: "'a word"
      using assms(1) by (simp add: changeEndianess_sized_def)
    show ?thesis
      unfolding 3 r
      by (rule exI [of _ "ucast (bswap64 (ucast value))"])
        (simp only: sized_swap64 [OF len] restore [unfolded 3] sum.inject simp_thms)
  qed
qed

text \<open>
  C10, as the claim states it, fails for the byte count 1: a \<open>u64\<close> is wider than one
  byte, and with a non-native order the value \<open>0x1234\<close> comes back whole. Its low
  byte alone is \<open>0x34\<close>; the bits above bit 7 are kept (\<open>0x12\<close>), and a second call
  gives the same value again.
\<close>

theorem sized_swap_one_byte_counterexample:
  "changeEndianess_sized little (0x1234 :: u64) 1 big = Inr 0x1234 \<and>
   take_bit (8 * 1) (0x1234 :: u64) = 0x34 \<and>
   drop_bit (8 * 1) (0x1234 :: u64) = 0x12 \<and>
   changeEndianess_sized little (0x1234 :: u64) 1 big \<noteq> Inr (take_bit (8 * 1) 0x1234)"
  by (simp add: changeEndianess_sized_def)

text \<open>
  C10, amended. With a non-native order and the byte count 1 the variant with a
  byte count returns the value unchanged, at every width and with all its bits.
  With a non-native order and a byte count of 2, 4 or 8 on a value of a type wider
  than that count, it returns the reversal of the low \<open>sz\<close> bytes of the value with
  every bit from \<open>8 * sz\<close> upwards zero. A second call on the result returns the low
  \<open>8 * sz\<close> bits of the value, so the value is restored exactly when it has no bit
  set from \<open>8 * sz\<close> upwards.
\<close>

theorem sized_swap_of_wider_value:
  fixes "value" :: "'a::len word"
  assumes "endian \<noteq> native"
  shows "changeEndianess_sized native value 1 endian = Inr value \<and>
    ((sz = 2 \<or> sz = 4 \<or> sz = 8) \<and> 8 * sz < LENGTH('a) \<longrightarrow>
      (\<exists>r. changeEndianess_sized native value sz endian = Inr r \<and>
        (\<forall>n. bit r n = (n < 8 * sz \<and> bit value (8 * (sz - 1 - n div 8) + n mod 8))) \<and>
        changeEndianess_sized native r sz endian = Inr (take_bit (8 * sz) value) \<and>
        (changeEndianess_sized native r sz endian = Inr value) =
          (drop_bit (8 * sz) value = 0)))"
proof (intro conjI impI)
  show "changeEndianess_sized native value 1 endian = Inr value"
    using assms by (simp add: changeEndianess_sized_def)
next
  assume "(sz = 2 \<or> sz = 4 \<or> sz = 8) \<and> 8 * sz < LENGTH('a)"
  then have "sz = 2 \<or> sz = 4 \<or> sz = 8" and "8 * sz < LENGTH('a)" by blast+
  then show "\<exists>r. changeEndianess_sized native value sz endian = Inr r \<and>
      (\<forall>n. bit r n = (n < 8 * sz \<and> bit value (8 * (sz - 1 - n div 8) + n mod 8))) \<and>
      changeEndianess_sized native r sz endian = Inr (take_bit (8 * sz) value) \<and>
      (changeEndianess_sized native r sz endian = Inr value) =
        (drop_bit (8 * sz) value = 0)"
    by (rule sized_swap_reverses [OF assms])
qed

theorem sized_swap_of_wider_value_witness:
  "changeEndianess_sized little (0x1122334455667788 :: u64) 1 big = Inr 0x1122334455667788 \<and>
   changeEndianess_sized little (0x1122334455667788 :: u64) 2 big = Inr 0x8877 \<and>
   changeEndianess_sized little (0x8877 :: u64) 2 big = Inr 0x7788 \<and>
   changeEndianess_sized little (0x1122334455667788 :: u64) 4 big = Inr 0x88776655 \<and>
   changeEndianess_sized little (0x88776655 :: u64) 4 big = Inr 0x55667788"
  using sized_swap_of_wider_value [of big little "0x1122334455667788 :: u64" 2]
    sized_swap_of_wider_value [of big little "0x1122334455667788 :: u64" 4]
  by (simp add: changeEndianess_sized_def bswap16_def bswap32_def)

end
